theory Spec2Isabelle
  imports Main
begin

section \<open>The log delivery pipeline of index.js\<close>

text \<open>
  The module keeps two log channels in module-level variables: the bot channel
  (\<open>botLogQueue\<close>, \<open>isProcessingBotLogQueue\<close>, \<open>webhookURL\<close>) and the site channel
  (\<open>siteWebhookQueue\<close>, \<open>isProcessingSiteLogQueue\<close>, \<open>sharedSiteWebhookURL\<close>).
  The code runs on the single-threaded JavaScript event loop. An \<open>async\<close> function runs
  synchronously up to its next \<open>await\<close>; what follows the \<open>await\<close> runs later, when the
  awaited timer fires or the awaited HTTP request settles. The model therefore cuts
  \<open>processBotLogQueue\<close> and \<open>processSiteLogQueue\<close> at their two \<open>await\<close>s into three
  segments each, and keeps the armed timers and the pending requests in the state.
\<close>

subsection \<open>Data\<close>

datatype chan = Bot | Site

text \<open>What an armed timer runs when it fires: the rest of a flush cycle after its
  500 ms wait, or the callback of \<open>handleWebhookError\<close> that calls the process function.\<close>

datatype task = DebounceDone chan | RetryCall chan

datatype json = JString string | JObject "(string \<times> json) list"

text \<open>A call of \<open>axios.post(url, body)\<close>; \<open>req_owner\<close> is the flush cycle awaiting it.\<close>

record request =
  req_owner :: chan
  req_url :: "string option"
  req_body :: json

text \<open>How a request settles: the promise resolves, or rejects with an error that has a
  message and, when the server answered, a response status.\<close>

datatype outcome = Resolved | Rejected "nat option" string

datatype console_line = Stdout string | Stderr string

datatype error = LocalSinkWriteFailed

text \<open>The two values read from the environment; \<open>None\<close> is JavaScript's \<open>undefined\<close>.\<close>

record config =
  webhookURL :: "string option"
  sharedSiteWebhookURL :: "string option"

record state =
  currentLogFile :: string
  botLogQueue :: "string list"
  siteLogQueue :: "string list"
  isProcessingBotLogQueue :: bool
  isProcessingSiteLogQueue :: bool
  siteWebhookQueue :: "string list"
  console :: "console_line list"
  files :: "string \<Rightarrow> string option"
  now :: nat
  timers :: "(nat \<times> task) list"
  inflight :: "request list"
  posted :: "request list"

subsection \<open>Library behaviour the code relies on\<close>

text \<open>JavaScript truthiness of an environment value: \<open>undefined\<close> and the empty string
  are falsy.\<close>

definition truthy :: "string option \<Rightarrow> bool" where
  "truthy v = (case v of None \<Rightarrow> False | Some u \<Rightarrow> u \<noteq> [])"

definition newline :: string where
  "newline = [CHR 0x0A]"

text \<open>\<open>Array.prototype.join\<close> on an array of strings.\<close>

fun join :: "string \<Rightarrow> string list \<Rightarrow> string" where
  "join sep [] = []"
| "join sep [x] = x"
| "join sep (x # y # ys) = x @ sep @ join sep (y # ys)"

text \<open>\<open>fs.appendFileSync\<close>: creates the file when it is missing.\<close>

definition appendFile :: "string \<Rightarrow> string \<Rightarrow> (string \<Rightarrow> string option) \<Rightarrow> (string \<Rightarrow> string option)" where
  "appendFile p d fs = fs(p \<mapsto> (case fs p of None \<Rightarrow> d | Some old \<Rightarrow> old @ d))"

text \<open>\<open>setTimeout(cb, ms)\<close> and \<open>axios.post\<close>.\<close>

definition setTimeout :: "task \<Rightarrow> nat \<Rightarrow> state \<Rightarrow> state" where
  "setTimeout cb ms s = s\<lparr>timers := timers s @ [(now s + ms, cb)]\<rparr>"

definition axios_post :: "chan \<Rightarrow> string option \<Rightarrow> json \<Rightarrow> state \<Rightarrow> state" where
  "axios_post c url body s =
     (let r = \<lparr>req_owner = c, req_url = url, req_body = body\<rparr>
      in s\<lparr>inflight := inflight s @ [r], posted := posted s @ [r]\<rparr>)"

definition console_log :: "string \<Rightarrow> state \<Rightarrow> state" where
  "console_log l s = s\<lparr>console := console s @ [Stdout l]\<rparr>"

definition console_error :: "string \<Rightarrow> state \<Rightarrow> state" where
  "console_error l s = s\<lparr>console := console s @ [Stderr l]\<rparr>"

subsection \<open>createLogFile\<close>

text \<open>\<open>ts\<close> is the clock formatted as \<open>yyyy-MM-dd_HH-mm-ss\<close>; \<open>ok\<close> tells whether
  \<open>fs.writeFileSync\<close> succeeds. \<open>path.join('./logs', name)\<close> is \<open>logs/name\<close>.\<close>

definition createLogFile :: "string \<Rightarrow> bool \<Rightarrow> state \<Rightarrow> (error + unit) \<times> state" where
  "createLogFile ts ok s =
     (let s1 = s\<lparr>currentLogFile := ''logs/'' @ ts @ ''.log''\<rparr>
      in if ok
         then (Inr (), s1\<lparr>files := (files s1)(currentLogFile s1 \<mapsto>
                 ''Log started at: '' @ ts @ newline @ newline)\<rparr>)
         else (Inl LocalSinkWriteFailed, s1))"

subsection \<open>handleWebhookError\<close>

text \<open>The parameter \<open>logQueue\<close> of the source is never used; \<open>processLogQueue\<close> is the
  process function of the channel, named here by the channel.\<close>

definition handleWebhookError :: "nat option \<Rightarrow> string \<Rightarrow> chan \<Rightarrow> state \<Rightarrow> state" where
  "handleWebhookError status message processLogQueue s =
     (if status = Some 429
      then setTimeout (RetryCall processLogQueue) 5000
             (console_log ''Rate limited. Retrying after 5 seconds...'' s)
      else console_error (''Error logging to webhook: '' @ message) s)"

subsection \<open>processBotLogQueue\<close>

text \<open>Up to the first \<open>await\<close>.\<close>

definition processBotLogQueue :: "state \<Rightarrow> state" where
  "processBotLogQueue s =
     setTimeout (DebounceDone Bot) 500 (s\<lparr>isProcessingBotLogQueue := True\<rparr>)"

text \<open>From the end of the wait to the \<open>await\<close> of the request, or to the end when the
  queue is empty.\<close>

definition processBotLogQueue_waited :: "config \<Rightarrow> state \<Rightarrow> state" where
  "processBotLogQueue_waited cfg s =
     (if length (botLogQueue s) > 0
      then (let logs = join newline (botLogQueue s);
                s1 = s\<lparr>botLogQueue := []\<rparr>
            in axios_post Bot (webhookURL cfg) (JObject [(''content'', JString logs)]) s1)
      else s\<lparr>isProcessingBotLogQueue := False\<rparr>)"

text \<open>From the settling of the request to the end.\<close>

definition processBotLogQueue_settled :: "outcome \<Rightarrow> state \<Rightarrow> state" where
  "processBotLogQueue_settled out s =
     (let s1 = (case out of
                  Resolved \<Rightarrow> console_log ''Logged to bot webhook successfully.'' s
                | Rejected status message \<Rightarrow> handleWebhookError status message Bot s)
      in s1\<lparr>isProcessingBotLogQueue := False\<rparr>)"

subsection \<open>processSiteLogQueue\<close>

definition processSiteLogQueue :: "state \<Rightarrow> state" where
  "processSiteLogQueue s =
     setTimeout (DebounceDone Site) 500 (s\<lparr>isProcessingSiteLogQueue := True\<rparr>)"

definition processSiteLogQueue_waited :: "config \<Rightarrow> state \<Rightarrow> state" where
  "processSiteLogQueue_waited cfg s =
     (if length (siteWebhookQueue s) > 0
      then (let logs = join newline (siteWebhookQueue s);
                s1 = s\<lparr>siteWebhookQueue := []\<rparr>
            in axios_post Site (sharedSiteWebhookURL cfg) (JObject [(''content'', JString logs)]) s1)
      else s\<lparr>isProcessingSiteLogQueue := False\<rparr>)"

definition processSiteLogQueue_settled :: "outcome \<Rightarrow> state \<Rightarrow> state" where
  "processSiteLogQueue_settled out s =
     (let s1 = (case out of
                  Resolved \<Rightarrow> console_log ''Logged to site webhook successfully.'' s
                | Rejected status message \<Rightarrow> handleWebhookError status message Site s)
      in s1\<lparr>isProcessingSiteLogQueue := False\<rparr>)"

subsection \<open>log\<close>

text \<open>\<open>ts\<close> is the clock formatted as \<open>yyyy-MM-dd HH:mm:ss\<close>; \<open>ok\<close> tells whether
  \<open>fs.appendFileSync\<close> succeeds. When it throws, the rest of the body does not run and
  the promise that \<open>log\<close> returns to its caller rejects: the result \<open>Inl\<close>. The promises of
  the process functions are not awaited, so nothing of a flush cycle reaches the result.\<close>

definition formatMessage :: "string \<Rightarrow> string \<Rightarrow> string" where
  "formatMessage ts message = ''['' @ ts @ ''] '' @ message"

definition log :: "config \<Rightarrow> string \<Rightarrow> bool \<Rightarrow> string \<Rightarrow> bool \<Rightarrow> state \<Rightarrow> (error + unit) \<times> state" where
  "log cfg message isSiteRelated ts ok s =
     (let formattedMessage = formatMessage ts message;
          s1 = console_log formattedMessage s
      in if \<not> ok then (Inl LocalSinkWriteFailed, s1)
         else
          (let s2 = s1\<lparr>files := appendFile (currentLogFile s1) (formattedMessage @ newline) (files s1)\<rparr>;
               s3 = (if \<not> isSiteRelated \<and> truthy (webhookURL cfg)
                     then (let q = s2\<lparr>botLogQueue := botLogQueue s2 @ [formattedMessage]\<rparr>
                           in if \<not> isProcessingBotLogQueue q then processBotLogQueue q else q)
                     else s2);
               s4 = (if isSiteRelated \<and> truthy (sharedSiteWebhookURL cfg)
                     then (let q = s3\<lparr>siteWebhookQueue := siteWebhookQueue s3 @ [formattedMessage]\<rparr>
                           in if \<not> isProcessingSiteLogQueue q then processSiteLogQueue q else q)
                     else s3)
           in (Inr (), s4)))"

subsection \<open>The event loop\<close>

text \<open>
  What can happen to the module: application code calls \<open>log\<close>; time passes; an armed
  timer that is due fires; a pending request settles. Timers armed with the same task
  have the same delay, so the first armed is the first due: \<open>Fire t\<close> fires the oldest
  timer armed with task \<open>t\<close>, and does nothing while that timer is not due. \<open>Settle i out\<close>
  settles the pending request at position \<open>i\<close>, and does nothing when there is none.
\<close>

datatype event =
    Call string bool string bool
  | Wait nat
  | Fire task
  | Settle nat outcome

fun run_task :: "config \<Rightarrow> task \<Rightarrow> state \<Rightarrow> state" where
  "run_task cfg (DebounceDone Bot) s = processBotLogQueue_waited cfg s"
| "run_task cfg (DebounceDone Site) s = processSiteLogQueue_waited cfg s"
| "run_task cfg (RetryCall Bot) s = processBotLogQueue s"
| "run_task cfg (RetryCall Site) s = processSiteLogQueue s"

fun settle :: "chan \<Rightarrow> outcome \<Rightarrow> state \<Rightarrow> state" where
  "settle Bot out s = processBotLogQueue_settled out s"
| "settle Site out s = processSiteLogQueue_settled out s"

fun take_timer :: "task \<Rightarrow> (nat \<times> task) list \<Rightarrow> (nat \<times> (nat \<times> task) list) option" where
  "take_timer t [] = None"
| "take_timer t ((due, t') # ts) =
     (if t' = t then Some (due, ts)
      else (case take_timer t ts of
              None \<Rightarrow> None
            | Some (d, rest) \<Rightarrow> Some (d, (due, t') # rest)))"

text \<open>The pending requests once the one at position \<open>i\<close> has settled.\<close>

definition without :: "nat \<Rightarrow> request list \<Rightarrow> request list" where
  "without i rs = take i rs @ drop (Suc i) rs"

fun step :: "config \<Rightarrow> event \<Rightarrow> state \<Rightarrow> state" where
  "step cfg (Call message isSiteRelated ts ok) s = snd (log cfg message isSiteRelated ts ok s)"
| "step cfg (Wait d) s = s\<lparr>now := now s + d\<rparr>"
| "step cfg (Fire t) s =
     (case take_timer t (timers s) of
        None \<Rightarrow> s
      | Some (due, rest) \<Rightarrow>
          if due \<le> now s then run_task cfg t (s\<lparr>timers := rest\<rparr>) else s)"
| "step cfg (Settle i out) s =
     (if i < length (inflight s)
      then settle (req_owner (inflight s ! i)) out (s\<lparr>inflight := without i (inflight s)\<rparr>)
      else s)"

fun run :: "config \<Rightarrow> event list \<Rightarrow> state \<Rightarrow> state" where
  "run cfg [] s = s"
| "run cfg (e # es) s = run cfg es (step cfg e s)"

text \<open>The state after the module has loaded and \<open>createLogFile\<close> has succeeded: nothing
  queued, nothing armed, nothing sent.\<close>

definition blank :: state where
  "blank = \<lparr>currentLogFile = [], botLogQueue = [], siteLogQueue = [],
            isProcessingBotLogQueue = False, isProcessingSiteLogQueue = False,
            siteWebhookQueue = [], console = [], files = (\<lambda>p. None), now = 0,
            timers = [], inflight = [], posted = []\<rparr>"

definition init :: "string \<Rightarrow> state" where
  "init ts = snd (createLogFile ts True blank)"

subsection \<open>Views of the state by channel\<close>

fun url_of :: "config \<Rightarrow> chan \<Rightarrow> string option" where
  "url_of cfg Bot = webhookURL cfg"
| "url_of cfg Site = sharedSiteWebhookURL cfg"

fun queue_of :: "chan \<Rightarrow> state \<Rightarrow> string list" where
  "queue_of Bot s = botLogQueue s"
| "queue_of Site s = siteWebhookQueue s"

fun flag_of :: "chan \<Rightarrow> state \<Rightarrow> bool" where
  "flag_of Bot s = isProcessingBotLogQueue s"
| "flag_of Site s = isProcessingSiteLogQueue s"

fun owned :: "chan \<Rightarrow> request list \<Rightarrow> request list" where
  "owned c [] = []"
| "owned c (r # rs) = (if req_owner r = c then r # owned c rs else owned c rs)"

definition posted_of :: "chan \<Rightarrow> state \<Rightarrow> request list" where
  "posted_of c s = owned c (posted s)"

definition inflight_of :: "chan \<Rightarrow> state \<Rightarrow> request list" where
  "inflight_of c s = owned c (inflight s)"

definition delivery :: "config \<Rightarrow> chan \<Rightarrow> string \<Rightarrow> request" where
  "delivery cfg c p =
     \<lparr>req_owner = c, req_url = url_of cfg c, req_body = JObject [(''content'', JString p)]\<rparr>"



text \<open>The due times of the timers armed with a task, oldest first.\<close>

fun waiting :: "task \<Rightarrow> (nat \<times> task) list \<Rightarrow> nat list" where
  "waiting t [] = []"
| "waiting t ((due, t') # ts) = (if t' = t then due # waiting t ts else waiting t ts)"

subsection \<open>Views of a sequence of events\<close>

text \<open>The formatted lines that the calls of \<open>log\<close> in a sequence of events append to the
  pending sequence of a channel: those of the calls tagged for the channel whose write
  to the log file succeeds, when the channel has a destination.\<close>

fun pushed :: "config \<Rightarrow> chan \<Rightarrow> event list \<Rightarrow> string list" where
  "pushed cfg c [] = []"
| "pushed cfg c (Call message isSiteRelated ts ok # es) =
     (if ok \<and> isSiteRelated = (c = Site) \<and> truthy (url_of cfg c)
      then formatMessage ts message # pushed cfg c es else pushed cfg c es)"
| "pushed cfg c (e # es) = pushed cfg c es"

text \<open>The request that delivers a batch of lines.\<close>

fun payload :: "config \<Rightarrow> chan \<Rightarrow> string list \<Rightarrow> request" where
  "payload cfg c b = delivery cfg c (join newline b)"

text \<open>What the callers of \<open>log\<close> get back along a run, and what the writes to the log
  file alone would give.\<close>

fun results :: "config \<Rightarrow> event list \<Rightarrow> state \<Rightarrow> (error + unit) list" where
  "results cfg [] s = []"
| "results cfg (Call message isSiteRelated ts ok # es) s =
     fst (log cfg message isSiteRelated ts ok s)
       # results cfg es (step cfg (Call message isSiteRelated ts ok) s)"
| "results cfg (e # es) s = results cfg es (step cfg e s)"

fun write_results :: "event list \<Rightarrow> (error + unit) list" where
  "write_results [] = []"
| "write_results (Call message isSiteRelated ts ok # es) =
     (if ok then Inr () else Inl LocalSinkWriteFailed) # write_results es"
| "write_results (e # es) = write_results es"

subsection \<open>Example runs\<close>

definition bot_only :: config where
  "bot_only = \<lparr>webhookURL = Some ''u'', sharedSiteWebhookURL = None\<rparr>"

text \<open>One line is recorded and its batch is sent.\<close>

definition sent_trace :: "event list" where
  "sent_trace = [Call ''x'' False ''t'' True, Wait 500, Fire (DebounceDone Bot)]"

text \<open>The sink answers the batch with status 429.\<close>

definition limited_trace :: "event list" where
  "limited_trace = sent_trace @ [Settle 0 (Rejected (Some 429) ''m'')]"

text \<open>A line recorded 4900 ms later starts a cycle; 100 ms after that the retry fires
  and starts another; each of the two sends a batch, the second while the first is
  pending.\<close>

definition overlap_trace :: "event list" where
  "overlap_trace = limited_trace @
     [Wait 4900, Call ''a'' False ''t'' True, Wait 100, Fire (RetryCall Bot),
      Wait 400, Fire (DebounceDone Bot), Call ''b'' False ''t'' True, Wait 100,
      Fire (DebounceDone Bot)]"

subsection \<open>States of a channel\<close>

text \<open>A channel with nothing queued, armed, pending or sent.\<close>

definition dormant :: "chan \<Rightarrow> state \<Rightarrow> bool" where
  "dormant c s \<longleftrightarrow> queue_of c s = [] \<and> waiting (DebounceDone c) (timers s) = []
      \<and> waiting (RetryCall c) (timers s) = [] \<and> inflight_of c s = [] \<and> posted_of c s = []"

text \<open>The due time of the oldest timer armed with a task.\<close>

definition next_due :: "task \<Rightarrow> state \<Rightarrow> nat option" where
  "next_due t s = (case waiting t (timers s) of [] \<Rightarrow> None | due # rest \<Rightarrow> Some due)"



text \<open>Lines are recorded for both channels while only the bot channel has a
  destination.\<close>

definition site_calls :: "event list" where
  "site_calls = [Call ''x'' True ''t'' True, Wait 500, Fire (DebounceDone Site),
     Call ''y'' True ''t'' True, Call ''z'' False ''t'' True, Wait 600, Fire (DebounceDone Bot)]"

text \<open>A line recorded while a request is pending stays queued after the request has
  resolved; a later call then opens a window.\<close>

definition stale_trace :: "event list" where
  "stale_trace = [Call ''x'' False ''t'' True, Wait 500, Fire (DebounceDone Bot),
     Call ''y'' False ''t'' True, Settle 0 Resolved, Wait 9000]"

definition late_call :: "event list" where
  "late_call = [Call ''z'' False ''t'' True]"

text \<open>Both channels have a destination. Inside the window that the bot line \<open>X\<close>
  opens at time 100, the wait of the site channel ends and its request resolves.\<close>

definition both :: config where
  "both = \<lparr>webhookURL = Some ''u'', sharedSiteWebhookURL = Some ''v''\<rparr>"

definition mixed_window :: "event list" where
  "mixed_window = [Call ''S'' True ''t0'' True, Wait 100, Call ''X'' False ''t1'' True,
     Wait 400, Fire (DebounceDone Site), Settle 0 Resolved, Call ''Y'' False ''t2'' True]"

section \<open>Properties\<close>

lemmas seg_defs = log_def processBotLogQueue_def processSiteLogQueue_def
  processBotLogQueue_waited_def processSiteLogQueue_waited_def
  processBotLogQueue_settled_def processSiteLogQueue_settled_def
  handleWebhookError_def setTimeout_def axios_post_def console_log_def console_error_def

lemmas run_defs = bot_only_def sent_trace_def limited_trace_def overlap_trace_def
  init_def blank_def createLogFile_def truthy_def appendFile_def formatMessage_def
  newline_def delivery_def posted_of_def inflight_of_def without_def
  site_calls_def stale_trace_def late_call_def both_def mixed_window_def
  next_due_def

subsection \<open>Frame lemmas of the segments\<close>

lemma owned_append: "owned c (xs @ ys) = owned c xs @ owned c ys"
  by (induction xs) auto

lemma queue_of_frame [simp]:
  "queue_of c (s\<lparr>now := n\<rparr>) = queue_of c s"
  "queue_of c (s\<lparr>timers := tm\<rparr>) = queue_of c s"
  "queue_of c (s\<lparr>inflight := fl\<rparr>) = queue_of c s"
  by (cases c; simp)+

lemma flag_of_frame [simp]:
  "flag_of c (s\<lparr>now := n\<rparr>) = flag_of c s"
  "flag_of c (s\<lparr>timers := tm\<rparr>) = flag_of c s"
  "flag_of c (s\<lparr>inflight := fl\<rparr>) = flag_of c s"
  by (cases c; simp)+

lemma settle_frame:
  "queue_of c' (settle c out s) = queue_of c' s"
  "posted (settle c out s) = posted s"
  "inflight (settle c out s) = inflight s"
  "now (settle c out s) = now s"
  "currentLogFile (settle c out s) = currentLogFile s"
  by (cases c; cases c'; cases out; simp add: seg_defs)+

lemma retry_frame:
  "queue_of c' (run_task cfg (RetryCall c) s) = queue_of c' s"
  "posted (run_task cfg (RetryCall c) s) = posted s"
  "inflight (run_task cfg (RetryCall c) s) = inflight s"
  "now (run_task cfg (RetryCall c) s) = now s"
  "currentLogFile (run_task cfg (RetryCall c) s) = currentLogFile s"
  by (cases c; cases c'; simp add: seg_defs)+

lemma waited_empty:
  "queue_of c s = [] \<Longrightarrow> queue_of c' (run_task cfg (DebounceDone c) s) = queue_of c' s"
  "queue_of c s = [] \<Longrightarrow> posted (run_task cfg (DebounceDone c) s) = posted s"
  "queue_of c s = [] \<Longrightarrow> inflight (run_task cfg (DebounceDone c) s) = inflight s"
  "queue_of c s = [] \<Longrightarrow> timers (run_task cfg (DebounceDone c) s) = timers s"
  by (cases c; cases c'; simp add: seg_defs)+

lemma waited_nonempty:
  "queue_of c s \<noteq> [] \<Longrightarrow>
     queue_of c' (run_task cfg (DebounceDone c) s) = (if c' = c then [] else queue_of c' s)"
  "queue_of c s \<noteq> [] \<Longrightarrow>
     posted (run_task cfg (DebounceDone c) s) = posted s @ [payload cfg c (queue_of c s)]"
  "queue_of c s \<noteq> [] \<Longrightarrow>
     inflight (run_task cfg (DebounceDone c) s) = inflight s @ [payload cfg c (queue_of c s)]"
  "queue_of c s \<noteq> [] \<Longrightarrow> timers (run_task cfg (DebounceDone c) s) = timers s"
  "queue_of c s \<noteq> [] \<Longrightarrow> flag_of c' (run_task cfg (DebounceDone c) s) = flag_of c' s"
  by (cases c; cases c'; simp add: seg_defs Let_def delivery_def)+

lemma waited_currentLogFile:
  "currentLogFile (run_task cfg (DebounceDone c) s) = currentLogFile s"
  by (cases c; simp add: seg_defs Let_def)

lemma log_frame:
  "queue_of c (snd (log cfg message isSiteRelated ts ok s)) =
     queue_of c s @ pushed cfg c [Call message isSiteRelated ts ok]"
  "posted (snd (log cfg message isSiteRelated ts ok s)) = posted s"
  "inflight (snd (log cfg message isSiteRelated ts ok s)) = inflight s"
  "now (snd (log cfg message isSiteRelated ts ok s)) = now s"
  "currentLogFile (snd (log cfg message isSiteRelated ts ok s)) = currentLogFile s"
  by (cases c; simp add: seg_defs Let_def)+

lemma payload_owner [simp]: "req_owner (payload cfg c b) = c"
  by (simp add: delivery_def)

lemma step_currentLogFile: "currentLogFile (step cfg e s) = currentLogFile s"
proof (cases e)
  case (Fire t)
  then show ?thesis
    by (cases t)
       (auto simp: retry_frame waited_currentLogFile simp del: run_task.simps
             split: option.splits)
qed (auto simp: log_frame settle_frame)

lemma run_currentLogFile: "currentLogFile (run cfg evs s) = currentLogFile s"
  by (induction evs arbitrary: s) (simp_all add: step_currentLogFile)

subsection \<open>Local logging\<close>

text \<open>
  C8. Every call of \<open>log\<close>, whatever its tag and whatever destinations are configured,
  writes the line \<open>[ts] message\<close> to the console before it returns and, when the write
  to the file succeeds, appends the line and a newline to the current log file within
  the same call. The current log file stays the one that \<open>createLogFile\<close> made at
  start-up, named by the start-up time, through every run of the module.
\<close>

theorem log_writes_console_and_file:
  "console (snd (log cfg message isSiteRelated ts ok s)) =
     console s @ [Stdout (formatMessage ts message)]
   \<and> (ok \<longrightarrow> files (snd (log cfg message isSiteRelated ts ok s)) =
          appendFile (currentLogFile s) (formatMessage ts message @ newline) (files s))
   \<and> currentLogFile (run cfg evs (init ts0)) = ''logs/'' @ ts0 @ ''.log''"
  by (simp add: seg_defs Let_def run_currentLogFile init_def createLogFile_def)

theorem log_writes_console_and_file_witness:
  "console (snd (log bot_only ''hello'' True ''t'' True (init ''d''))) = [Stdout ''[t] hello'']
   \<and> files (snd (log bot_only ''hello'' True ''t'' True (init ''d''))) ''logs/d.log'' =
       Some (''Log started at: d'' @ newline @ newline @ ''[t] hello'' @ newline)
   \<and> currentLogFile (run bot_only sent_trace (init ''d'')) = ''logs/d.log''"
  using log_writes_console_and_file [of bot_only "''hello''" True "''t''" True "init ''d''" sent_trace "''d''"]
  by (simp add: init_def blank_def createLogFile_def appendFile_def formatMessage_def)

subsection \<open>What the caller of log sees\<close>

lemma results_write_results: "results cfg evs s = write_results evs"
proof (induction evs arbitrary: s)
  case Nil
  show ?case by simp
next
  case (Cons e es)
  show ?case by (cases e) (simp_all add: Cons.IH log_def Let_def)
qed

text \<open>
  C6. The promise that \<open>log\<close> returns rejects exactly when the write to the log file
  fails, in every state of the module; along any run, with any outcomes of the
  requests (rejected with 429 or otherwise), the results that the callers of \<open>log\<close> get
  are those of the writes to the log file alone.
\<close>

theorem log_result_from_local_write_only:
  "fst (log cfg message isSiteRelated ts ok s) = (if ok then Inr () else Inl LocalSinkWriteFailed)
   \<and> results cfg evs s = write_results evs"
  by (simp add: results_write_results) (simp add: log_def Let_def)

subsection \<open>Failed deliveries\<close>

text \<open>
  C7. When a pending request of a channel rejects with anything but a response of
  status 429, the error is written to the console with \<open>console.error\<close>, no timer is
  armed, the pending sequence of the channel is left as it is (the batch, removed when
  it was sent, is not put back), nothing is sent, and the flag of the channel is
  cleared.
\<close>

theorem non_rate_limit_error_dropped:
  assumes "i < length (inflight s)" and "status \<noteq> Some 429"
    and "c = req_owner (inflight s ! i)"
    and "s' = step cfg (Settle i (Rejected status message)) s"
  shows "console s' = console s @ [Stderr (''Error logging to webhook: '' @ message)]
    \<and> timers s' = timers s \<and> queue_of c s' = queue_of c s \<and> posted s' = posted s
    \<and> inflight s' = without i (inflight s) \<and> \<not> flag_of c s'"
  using assms by (cases c) (auto simp add: seg_defs Let_def)

theorem non_rate_limit_error_dropped_witness:
  "0 < length (inflight (run bot_only sent_trace (init ''d'')))
   \<and> Some 500 \<noteq> Some (429::nat)
   \<and> Bot = req_owner (inflight (run bot_only sent_trace (init ''d'')) ! 0)
   \<and> console (step bot_only (Settle 0 (Rejected (Some 500) ''boom'')) (run bot_only sent_trace (init ''d'')))
       = [Stdout ''[t] x'', Stderr ''Error logging to webhook: boom'']
   \<and> timers (step bot_only (Settle 0 (Rejected (Some 500) ''boom'')) (run bot_only sent_trace (init ''d''))) = []
   \<and> queue_of Bot (step bot_only (Settle 0 (Rejected (Some 500) ''boom'')) (run bot_only sent_trace (init ''d''))) = []
   \<and> inflight (step bot_only (Settle 0 (Rejected (Some 500) ''boom'')) (run bot_only sent_trace (init ''d''))) = []
   \<and> \<not> flag_of Bot (step bot_only (Settle 0 (Rejected (Some 500) ''boom'')) (run bot_only sent_trace (init ''d'')))"
  using non_rate_limit_error_dropped [OF _ _ _ refl, of 0 "run bot_only sent_trace (init ''d'')"
          "Some 500" Bot bot_only "''boom''"]
  by (simp add: run_defs seg_defs Let_def)

text \<open>
  C3. The run \<open>limited_trace\<close>: the sink answers the first batch with status 429 at
  time 500. The retry is armed for time 5500, but the flag is already cleared at time
  500, before the retry has run; a call of \<open>log\<close> made then starts a flush cycle of its
  own while the retry is still armed.
\<close>

theorem flag_cleared_before_retry:
  "\<not> isProcessingBotLogQueue (run bot_only limited_trace (init ''d''))
   \<and> now (run bot_only limited_trace (init ''d'')) = 500
   \<and> timers (run bot_only limited_trace (init ''d'')) = [(5500, RetryCall Bot)]
   \<and> timers (run bot_only (limited_trace @ [Call ''a'' False ''t'' True]) (init ''d'')) =
       [(5500, RetryCall Bot), (1000, DebounceDone Bot)]"
  by (simp add: run_defs seg_defs Let_def)

subsection \<open>Overlapping flush cycles\<close>

text \<open>
  C2. The run \<open>overlap_trace\<close>: after a 429 the flag is cleared, a call of \<open>log\<close> starts
  a flush cycle, and the retry timer then starts a second one without looking at the
  flag. Both send a batch, and the two requests of the bot channel are pending at the
  same time.
\<close>

theorem retry_overlaps_running_cycle:
  "inflight_of Bot (run bot_only overlap_trace (init ''d'')) =
     [delivery bot_only Bot ''[t] a'', delivery bot_only Bot ''[t] b'']"
  by (simp add: run_defs seg_defs Let_def)

subsection \<open>Every entry goes into at most one batch\<close>

text \<open>One event sends at most one batch of the channel, made of the entries pending
  before it; a run sends a sequence of batches.\<close>

lemma step_partition:
  "\<exists>bs. posted_of c (step cfg e s) = posted_of c s @ map (payload cfg c) bs \<and> [] \<notin> set bs \<and>
        queue_of c s @ pushed cfg c [e] = concat bs @ queue_of c (step cfg e s)"
proof (cases e)
  case (Call m b ts ok)
  then show ?thesis
    by (auto simp: log_frame posted_of_def simp del: pushed.simps intro!: exI[of _ "[]"])
next
  case (Wait d)
  then show ?thesis by (auto simp: posted_of_def intro!: exI[of _ "[]"])
next
  case (Fire t)
  show ?thesis
  proof (cases "take_timer t (timers s)")
    case None
    with Fire show ?thesis by (auto simp: posted_of_def intro!: exI[of _ "[]"])
  next
    case (Some a)
    obtain due rest where a: "a = (due, rest)" by (cases a)
    show ?thesis
    proof (cases "due \<le> now s")
      case False
      with Fire Some a show ?thesis by (auto simp: posted_of_def intro!: exI[of _ "[]"])
    next
      case True
      note due = this
      show ?thesis
      proof (cases t)
        case (RetryCall c')
        with Fire Some a due show ?thesis
          by (auto simp: retry_frame posted_of_def simp del: run_task.simps intro!: exI[of _ "[]"])
      next
        case (DebounceDone c')
        show ?thesis
        proof (cases "queue_of c' (s\<lparr>timers := rest\<rparr>) = []")
          case True
          with Fire Some a due DebounceDone show ?thesis
            by (auto simp: waited_empty posted_of_def simp del: run_task.simps intro!: exI[of _ "[]"])
        next
          case False
          with Fire Some a due DebounceDone show ?thesis
            by (auto simp: waited_nonempty posted_of_def owned_append simp del: run_task.simps payload.simps
                  intro!: exI[of _ "if c' = c then [queue_of c s] else []"])
        qed
      qed
    qed
  qed
next
  case (Settle i out)
  then show ?thesis
    by (auto simp: settle_frame posted_of_def intro!: exI[of _ "[]"])
qed

lemma pushed_Cons: "pushed cfg c (e # es) = pushed cfg c [e] @ pushed cfg c es"
  by (cases e) auto

lemma run_partition:
  "\<exists>bs. posted_of c (run cfg evs s) = posted_of c s @ map (payload cfg c) bs \<and> [] \<notin> set bs \<and>
        queue_of c s @ pushed cfg c evs = concat bs @ queue_of c (run cfg evs s)"
proof (induction evs arbitrary: s)
  case Nil
  show ?case by (auto intro!: exI[of _ "[]"])
next
  case (Cons e es)
  obtain b1 where b1: "posted_of c (step cfg e s) = posted_of c s @ map (payload cfg c) b1"
     "[] \<notin> set b1" "queue_of c s @ pushed cfg c [e] = concat b1 @ queue_of c (step cfg e s)"
    using step_partition by blast
  obtain b2 where b2: "posted_of c (run cfg es (step cfg e s)) = posted_of c (step cfg e s) @ map (payload cfg c) b2"
     "[] \<notin> set b2" "queue_of c (step cfg e s) @ pushed cfg c es = concat b2 @ queue_of c (run cfg es (step cfg e s))"
    using Cons.IH by blast
  have "queue_of c s @ pushed cfg c (e # es) = (queue_of c s @ pushed cfg c [e]) @ pushed cfg c es"
    using pushed_Cons[of cfg c e es] by simp
  also have "\<dots> = concat b1 @ (queue_of c (step cfg e s) @ pushed cfg c es)"
    using b1(3) by simp
  also have "\<dots> = concat (b1 @ b2) @ queue_of c (run cfg es (step cfg e s))"
    using b2(3) by simp
  finally have q: "queue_of c s @ pushed cfg c (e # es) = concat (b1 @ b2) @ queue_of c (run cfg (e # es) s)"
    by simp
  have p: "posted_of c (run cfg (e # es) s) = posted_of c s @ map (payload cfg c) (b1 @ b2)"
    using b1(1) b2(1) by simp
  have n: "[] \<notin> set (b1 @ b2)" using b1(2) b2(2) by simp
  from p n q show ?case by blast
qed

lemma waited_clears: "queue_of c (run_task cfg (DebounceDone c) s) = []"
  by (cases "queue_of c s = []") (simp_all add: waited_empty waited_nonempty del: run_task.simps)

text \<open>
  C9. The segment that sends a batch leaves the pending sequence of its channel empty.
  Along any run from any state, the entries of a channel (those pending at the start,
  then those appended by the calls of \<open>log\<close>, in order) are cut into consecutive
  non-empty batches, one per request sent for the channel during the run, followed by
  what is still pending at the end. So each entry is in at most one request, whatever
  timers fire (retries too) and however the requests settle.
\<close>

theorem entries_sent_at_most_once:
  "queue_of c (run_task cfg (DebounceDone c) s) = []
   \<and> (\<exists>bs. posted_of c (run cfg evs s) = posted_of c s @ map (payload cfg c) bs
          \<and> [] \<notin> set bs
          \<and> queue_of c s @ pushed cfg c evs = concat bs @ queue_of c (run cfg evs s))"
  using run_partition [of c cfg evs s] waited_clears [of c cfg s] by blast

text \<open>
  C4. A batch is removed from the pending sequence when it is sent. A rejection with
  status 429 leaves the pending sequence as it is and sends nothing: the batch is not
  put back. Every request sent for the channel after the batch was taken, the one of
  the retry included, is made of entries appended by calls of \<open>log\<close> after that point.
\<close>

theorem rate_limited_batch_lost:
  "queue_of c (run_task cfg (DebounceDone c) s) = []
   \<and> queue_of c (step cfg (Settle i (Rejected (Some 429) message)) r) = queue_of c r
   \<and> posted (step cfg (Settle i (Rejected (Some 429) message)) r) = posted r
   \<and> (\<exists>bs. posted_of c (run cfg evs (run_task cfg (DebounceDone c) s)) =
             posted_of c (run_task cfg (DebounceDone c) s) @ map (payload cfg c) bs
          \<and> [] \<notin> set bs
          \<and> pushed cfg c evs = concat bs @ queue_of c (run cfg evs (run_task cfg (DebounceDone c) s)))"
proof -
  have a: "queue_of c (run_task cfg (DebounceDone c) s) = []" by (rule waited_clears)
  have b: "queue_of c (step cfg (Settle i (Rejected (Some 429) message)) r) = queue_of c r"
    by (simp add: settle_frame)
  have c: "posted (step cfg (Settle i (Rejected (Some 429) message)) r) = posted r"
    by (simp add: settle_frame)
  from run_partition [of c cfg evs "run_task cfg (DebounceDone c) s"] a b c
  show ?thesis by simp
qed

subsection \<open>The two channels\<close>






subsection \<open>Timers\<close>

lemma waiting_append: "waiting t (xs @ ys) = waiting t xs @ waiting t ys"
  by (induction xs) auto

lemma take_timer_none: "waiting t ts = [] \<Longrightarrow> take_timer t ts = None"
  by (induction ts) (auto split: if_splits)


lemma take_timer_others:
  "take_timer t ts = Some (d, rest) \<Longrightarrow> t' \<noteq> t \<Longrightarrow> waiting t' rest = waiting t' ts"
  by (induction ts arbitrary: d rest) (auto split: if_splits option.splits)

lemma owned_empty: "owned c rs = [] \<longleftrightarrow> (\<forall>r \<in> set rs. req_owner r \<noteq> c)"
  by (induction rs) auto

lemma owned_without: "owned c rs = [] \<Longrightarrow> owned c (without i rs) = []"
  unfolding owned_empty without_def
  by (auto dest: in_set_takeD in_set_dropD)


subsection \<open>A channel without a destination\<close>

lemma dormant_step:
  assumes u: "\<not> truthy (url_of cfg c)" and d: "dormant c s"
  shows "dormant c (step cfg e s)"
proof (cases e)
  case (Call m b ts ok)
  with u d show ?thesis
    by (cases c) (auto simp: dormant_def seg_defs Let_def waiting_append posted_of_def inflight_of_def)
next
  case (Wait n)
  with d show ?thesis by (simp add: dormant_def posted_of_def inflight_of_def)
next
  case (Fire t)
  show ?thesis
  proof (cases "take_timer t (timers s)")
    case None
    with Fire d show ?thesis by simp
  next
    case (Some a)
    obtain due rest where a: "a = (due, rest)" by (cases a)
    have tc: "t \<noteq> DebounceDone c" "t \<noteq> RetryCall c"
      using Some d take_timer_none [of t "timers s"] by (auto simp: dormant_def)
    have w: "waiting (DebounceDone c) rest = []" "waiting (RetryCall c) rest = []"
      using take_timer_others [of t "timers s" due rest] Some a tc d
      by (auto simp: dormant_def)
    from tc obtain c' where t: "t = DebounceDone c' \<or> t = RetryCall c'" and c': "c' \<noteq> c"
      by (cases t) auto
    show ?thesis
    proof (cases "due \<le> now s")
      case False
      with Fire Some a d show ?thesis by simp
    next
      case True
      with Fire Some a d w t c' show ?thesis
        by (cases c; cases c')
           (auto simp: dormant_def seg_defs Let_def waiting_append posted_of_def inflight_of_def
                       owned_append)
    qed
  qed
next
  case (Settle i out)
  show ?thesis
  proof (cases "i < length (inflight s)")
    case False
    with Settle d show ?thesis by simp
  next
    case True
    have o: "req_owner (inflight s ! i) \<noteq> c"
      using d True by (auto simp: dormant_def inflight_of_def owned_empty)
    have r: "owned c (without i (inflight s)) = []"
      using d by (simp add: dormant_def inflight_of_def owned_without)
    from Settle True o r d show ?thesis
      by (cases c; cases "req_owner (inflight s ! i)"; cases out)
         (auto simp: dormant_def seg_defs Let_def waiting_append posted_of_def inflight_of_def)
  qed
qed

lemma dormant_run: "\<not> truthy (url_of cfg c) \<Longrightarrow> dormant c s \<Longrightarrow> dormant c (run cfg evs s)"
  by (induction evs arbitrary: s) (simp_all add: dormant_step)

lemma dormant_init: "dormant c (init ts0)"
  by (cases c) (simp_all add: dormant_def init_def blank_def createLogFile_def posted_of_def inflight_of_def)

text \<open>
  C5. When the URL of a channel is unset (or empty), no request is ever sent for the
  channel, along any run of the module from start-up. A call of \<open>log\<close> tagged for the
  channel whose write to the log file succeeds returns without error, has written the
  line to the console and the log file, and has queued, armed and sent nothing.
\<close>

theorem unset_url_never_posts:
  assumes "\<not> truthy (url_of cfg c)"
  shows "posted_of c (run cfg evs (init ts0)) = []
    \<and> fst (log cfg message (c = Site) ts True s) = Inr ()
    \<and> console (snd (log cfg message (c = Site) ts True s)) =
        console s @ [Stdout (formatMessage ts message)]
    \<and> files (snd (log cfg message (c = Site) ts True s)) =
        appendFile (currentLogFile s) (formatMessage ts message @ newline) (files s)
    \<and> queue_of c (snd (log cfg message (c = Site) ts True s)) = queue_of c s
    \<and> timers (snd (log cfg message (c = Site) ts True s)) = timers s
    \<and> posted (snd (log cfg message (c = Site) ts True s)) = posted s"
proof -
  have "dormant c (run cfg evs (init ts0))"
    using assms dormant_init dormant_run by blast
  then have p: "posted_of c (run cfg evs (init ts0)) = []"
    by (simp add: dormant_def)
  from assms have l: "fst (log cfg message (c = Site) ts True s) = Inr ()
    \<and> console (snd (log cfg message (c = Site) ts True s)) =
        console s @ [Stdout (formatMessage ts message)]
    \<and> files (snd (log cfg message (c = Site) ts True s)) =
        appendFile (currentLogFile s) (formatMessage ts message @ newline) (files s)
    \<and> queue_of c (snd (log cfg message (c = Site) ts True s)) = queue_of c s
    \<and> timers (snd (log cfg message (c = Site) ts True s)) = timers s
    \<and> posted (snd (log cfg message (c = Site) ts True s)) = posted s"
    by (cases c) (simp_all add: seg_defs Let_def)
  from p l show ?thesis by simp
qed

theorem unset_url_never_posts_witness:
  "\<not> truthy (url_of bot_only Site)
   \<and> posted_of Site (run bot_only site_calls (init ''d'')) = []
   \<and> posted_of Bot (run bot_only site_calls (init ''d'')) = [delivery bot_only Bot ''[t] z'']
   \<and> fst (log bot_only ''x'' (Site = Site) ''t'' True (init ''d'')) = Inr ()
   \<and> console (snd (log bot_only ''x'' (Site = Site) ''t'' True (init ''d''))) = [Stdout ''[t] x'']
   \<and> timers (snd (log bot_only ''x'' (Site = Site) ''t'' True (init ''d''))) = []"
  using unset_url_never_posts [of bot_only Site site_calls "''d''" "''x''" "''t''" "init ''d''"]
  by (simp add: run_defs seg_defs Let_def)

subsection \<open>One debounce window\<close>









end
